theory Spec2Isabelle
  imports Complex_Main
begin

section \<open>Common data\<close>

text \<open>
  Python floats are read as real numbers: the functions below only compare such values,
  assign constants, and (in the mapper) scale them, and the properties studied here do
  not depend on rounding. Non-finite values (NaN, infinities) are outside the model.

  A Python \<open>dict\<close> with string keys is a map from strings; subscripting a missing key
  raises \<open>KeyError\<close>, which is the \<open>Inl\<close> branch of the result.
\<close>

datatype error = KeyError string

type_synonym semantic = "string \<rightharpoonup> real"

definition getitem :: "semantic \<Rightarrow> string \<Rightarrow> error + real" where
  "getitem d k = (case d k of None \<Rightarrow> Inl (KeyError k) | Some v \<Rightarrow> Inr v)"

section \<open>Safety supervisor (backend/app/safety.py)\<close>

definition BATTERY_MAX_CHARGE_TOTAL :: real where
  "BATTERY_MAX_CHARGE_TOTAL = 800"

definition BATTERY_MAX_DISCHARGE_TOTAL :: real where
  "BATTERY_MAX_DISCHARGE_TOTAL = 800"

definition GRID_MAX_IMPORT :: real where
  "GRID_MAX_IMPORT = 5000"

definition EV_MAX_CHARGE :: real where
  "EV_MAX_CHARGE = 450"

text \<open>
  The state threaded through \<open>apply_safety\<close> is the pair of its two locals,
  \<open>safe\<close> (the copy of the argument) and \<open>flags\<close>.

  Every statement of the function has the shape
  \<^verbatim>\<open>if [guard and] safe[k] <cond>: safe[k] = c; flags.append(f)\<close>
  and \<open>clamp_stmt guard k cond c f\<close> is that statement (\<open>guard\<close> is \<open>True\<close> for
  a statement without one). Python's \<open>and\<close> evaluates the lookup \<open>safe[k]\<close> only
  when the guard holds; the lookup raises when the key is missing.
\<close>

type_synonym safety_state = "semantic \<times> string list"

definition clamp_stmt ::
  "bool \<Rightarrow> string \<Rightarrow> (real \<Rightarrow> bool) \<Rightarrow> real \<Rightarrow> string \<Rightarrow> safety_state \<Rightarrow> error + safety_state" where
  "clamp_stmt guard k cond c f st =
     (if \<not> guard then Inr st
      else case getitem (fst st) k of
             Inl e \<Rightarrow> Inl e
           | Inr v \<Rightarrow> if cond v then Inr ((fst st)(k \<mapsto> c), snd st @ [f]) else Inr st)"

text \<open>Statements in sequence: the first exception ends the run.\<close>

fun run_stmts :: "(safety_state \<Rightarrow> error + safety_state) list \<Rightarrow> safety_state \<Rightarrow> error + safety_state" where
  "run_stmts [] st = Inr st"
| "run_stmts (s # ss) st = (case s st of Inl e \<Rightarrow> Inl e | Inr st' \<Rightarrow> run_stmts ss st')"

definition apply_safety :: "semantic \<Rightarrow> real \<Rightarrow> error + safety_state" where
  "apply_safety semantic soc_fraction =
     run_stmts
       [ clamp_stmt (soc_fraction < 0.20) ''battery_kw'' (\<lambda>v. v < 0) 0 ''BLOCK_DISCHARGE_LOW_SOC'',
         clamp_stmt (soc_fraction > 0.90) ''battery_kw'' (\<lambda>v. v > 0) 0 ''BLOCK_CHARGE_HIGH_SOC'',
         clamp_stmt True ''battery_kw'' (\<lambda>v. v > BATTERY_MAX_CHARGE_TOTAL)
           BATTERY_MAX_CHARGE_TOTAL ''CLAMP_BATTERY_CHARGE'',
         clamp_stmt True ''battery_kw'' (\<lambda>v. v < - BATTERY_MAX_DISCHARGE_TOTAL)
           (- BATTERY_MAX_DISCHARGE_TOTAL) ''CLAMP_BATTERY_DISCHARGE'',
         clamp_stmt True ''grid_kw'' (\<lambda>v. v < 0) 0 ''NO_EXPORT_SUPPORTED'',
         clamp_stmt True ''grid_kw'' (\<lambda>v. v > GRID_MAX_IMPORT) GRID_MAX_IMPORT ''CLAMP_GRID_IMPORT'',
         clamp_stmt True ''ev_kw'' (\<lambda>v. v < 0) 0 ''NEG_EV_POWER'',
         clamp_stmt True ''ev_kw'' (\<lambda>v. v > EV_MAX_CHARGE) EV_MAX_CHARGE ''CLAMP_EV_CHARGE'',
         clamp_stmt True ''curtailment'' (\<lambda>v. v < 0) 0 ''CURTAILMENT_NEG'',
         clamp_stmt True ''curtailment'' (\<lambda>v. v > 1) 1 ''CURTAILMENT_GT1'' ]
       (semantic, [])"

text \<open>
  The claim about applying the supervisor twice feeds the action of a first result
  into a second call, with the same state of charge.
\<close>

definition supervise_again :: "error + safety_state \<Rightarrow> real \<Rightarrow> error + safety_state" where
  "supervise_again r soc_fraction =
     (case r of Inl e \<Rightarrow> Inl e | Inr st \<Rightarrow> apply_safety (fst st) soc_fraction)"

subsection \<open>The statements of one field, read together\<close>

text \<open>
  What one statement leaves in \<open>safe[k]\<close> and appends to \<open>flags\<close>, given whether its
  condition held; then, for each field, the value and the flags left by the statements
  on that field in their order. These are used to describe the result of
  \<open>apply_safety\<close>; lemma \<open>apply_safety_closed_form\<close> below derives them from it.
\<close>

definition stmt_value :: "bool \<Rightarrow> real \<Rightarrow> real \<Rightarrow> real" where
  "stmt_value fired c v = (if fired then c else v)"

definition stmt_flag :: "bool \<Rightarrow> string \<Rightarrow> string list" where
  "stmt_flag fired f = (if fired then [f] else [])"

definition battery_final :: "real \<Rightarrow> real \<Rightarrow> real" where
  "battery_final soc b =
     (let b1 = stmt_value (soc < 0.20 \<and> b < 0) 0 b;
          b2 = stmt_value (soc > 0.90 \<and> b1 > 0) 0 b1;
          b3 = stmt_value (b2 > 800) 800 b2
      in stmt_value (b3 < - 800) (- 800) b3)"

definition battery_flags :: "real \<Rightarrow> real \<Rightarrow> string list" where
  "battery_flags soc b =
     (let b1 = stmt_value (soc < 0.20 \<and> b < 0) 0 b;
          b2 = stmt_value (soc > 0.90 \<and> b1 > 0) 0 b1;
          b3 = stmt_value (b2 > 800) 800 b2
      in stmt_flag (soc < 0.20 \<and> b < 0) ''BLOCK_DISCHARGE_LOW_SOC'' @
         stmt_flag (soc > 0.90 \<and> b1 > 0) ''BLOCK_CHARGE_HIGH_SOC'' @
         stmt_flag (b2 > 800) ''CLAMP_BATTERY_CHARGE'' @
         stmt_flag (b3 < - 800) ''CLAMP_BATTERY_DISCHARGE'')"

definition range_final :: "real \<Rightarrow> real \<Rightarrow> real" where
  "range_final hi v = (let v1 = stmt_value (v < 0) 0 v in stmt_value (v1 > hi) hi v1)"

definition range_flags :: "real \<Rightarrow> string \<Rightarrow> string \<Rightarrow> real \<Rightarrow> string list" where
  "range_flags hi f_lo f_hi v =
     (let v1 = stmt_value (v < 0) 0 v in stmt_flag (v < 0) f_lo @ stmt_flag (v1 > hi) f_hi)"

subsection \<open>The safety envelope\<close>



section \<open>Action semantic mapper (backend/app/action\_mapping.py)\<close>

definition BAT1_MAX_CHARGE :: real where
  "BAT1_MAX_CHARGE = 600"

definition BAT1_MAX_DISCHARGE :: real where
  "BAT1_MAX_DISCHARGE = 600"

definition BAT2_MAX_CHARGE :: real where
  "BAT2_MAX_CHARGE = 200"

definition BAT2_MAX_DISCHARGE :: real where
  "BAT2_MAX_DISCHARGE = 200"

text \<open>The mapper module has its own \<open>GRID_MAX_IMPORT\<close>, with the same value.\<close>

definition GRID_MAX_IMPORT_mapping :: real where
  "GRID_MAX_IMPORT_mapping = 5000"

definition GRID_MAX_EXPORT :: real where
  "GRID_MAX_EXPORT = 3000"

definition EV_MAX_AGG_CHARGE :: real where
  "EV_MAX_AGG_CHARGE = 450"

definition battery_power_component :: "real \<Rightarrow> real \<Rightarrow> real \<Rightarrow> real" where
  "battery_power_component raw max_charge max_discharge =
     (if raw \<ge> 0 then raw * max_charge else raw * max_discharge)"

text \<open>
  \<^verbatim>\<open>v = raw_vector\<close> binds a second name to the caller's list object, and
  \<^verbatim>\<open>while len(v) < 5: v.append(0.0)\<close> appends to that object. The loop is
  \<open>pad_loop\<close>; \<open>map_action\<close> returns the dictionary together with the content of
  the caller's list when the call ends.
\<close>

function pad_loop :: "real list \<Rightarrow> real list" where
  "pad_loop v = (if length v < 5 then pad_loop (v @ [0]) else v)"
  by pat_completeness auto
termination
  by (relation "measure (\<lambda>v. 5 - length v)") auto

declare pad_loop.simps [simp del]

text \<open>
  After the loop the list has at least five elements, so the reads \<open>v[0]\<close> to
  \<open>v[4]\<close> are in range (lemma \<open>length_pad_loop\<close>).
\<close>

definition map_action :: "real list \<Rightarrow> semantic \<times> real list" where
  "map_action raw_vector =
     (if raw_vector = [] then
        ([''battery_kw'' \<mapsto> 0, ''battery1_kw'' \<mapsto> 0, ''battery2_kw'' \<mapsto> 0,
          ''grid_kw'' \<mapsto> 0, ''ev_kw'' \<mapsto> 0, ''curtailment'' \<mapsto> 0], raw_vector)
      else
        (let v = pad_loop raw_vector;
             b1 = battery_power_component (v ! 0) BAT1_MAX_CHARGE BAT1_MAX_DISCHARGE;
             b2 = battery_power_component (v ! 1) BAT2_MAX_CHARGE BAT2_MAX_DISCHARGE;
             grid_norm = v ! 2;
             grid_kw = (if grid_norm \<ge> 0 then grid_norm * GRID_MAX_IMPORT_mapping
                        else - grid_norm * GRID_MAX_EXPORT * - 1);
             ev_norm = max 0 (min 1 (v ! 3));
             ev_kw = ev_norm * EV_MAX_AGG_CHARGE;
             curtailment = (v ! 4 + 1) / 2;
             total_battery = b1 + b2
         in ([''battery_kw'' \<mapsto> total_battery, ''battery1_kw'' \<mapsto> b1, ''battery2_kw'' \<mapsto> b2,
              ''grid_kw'' \<mapsto> grid_kw, ''ev_kw'' \<mapsto> ev_kw,
              ''curtailment'' \<mapsto> max 0 (min 1 curtailment)], v)))"

text \<open>The vector right-padded with zeros to length 5, as the specification words it.\<close>

definition right_padded :: "real list \<Rightarrow> real list" where
  "right_padded v = v @ replicate (5 - length v) 0"

section \<open>The supervised advisory path (backend/app/main.py, rl\_advisory\_safe)\<close>


section \<open>Rule evaluator (backend/app/rules.py)\<close>

text \<open>
  A telemetry payload maps field names to values. \<open>float(payload[field])\<close> converts
  a value to a number or raises (\<open>ValueError\<close> or \<open>TypeError\<close>): \<open>Number v\<close>
  is a value that converts to \<open>v\<close>, \<open>NotNumber\<close> one that \<open>float\<close> rejects.

  The alert dictionary yielded by \<open>evaluate\<close> has the keys \<open>type_\<close>,
  \<open>severity\<close>, \<open>message\<close>, \<open>value\<close>, \<open>threshold\<close>; it is the record
  \<open>alert\<close>. The generator is the list of the alerts it yields, in order, together with
  the exception that ended it, if one did.
\<close>

datatype pyvalue = Number real | NotNumber

datatype float_error = FloatError

type_synonym payload = "string \<rightharpoonup> pyvalue"

definition float_of :: "pyvalue \<Rightarrow> float_error + real" where
  "float_of x = (case x of Number v \<Rightarrow> Inr v | NotNumber \<Rightarrow> Inl FloatError)"

record rule =
  field :: string
  op :: string
  threshold :: real
  severity :: string
  rule_type :: string
  message :: string

record alert =
  alert_type :: string
  alert_severity :: string
  alert_message :: string
  alert_value :: real
  alert_threshold :: real

definition check :: "rule \<Rightarrow> payload \<Rightarrow> float_error + (real \<times> real) option" where
  "check self p =
     (case p (field self) of
        None \<Rightarrow> Inr None
      | Some x \<Rightarrow>
          (case float_of x of
             Inl e \<Rightarrow> Inl e
           | Inr v \<Rightarrow>
               if op self = ''lt'' \<and> v < threshold self then Inr (Some (v, threshold self))
               else if op self = ''gt'' \<and> v > threshold self then Inr (Some (v, threshold self))
               else Inr None))"

definition RULES :: "rule list" where
  "RULES =
     [ \<lparr>field = ''soc'', op = ''lt'', threshold = 20, severity = ''WARN'',
        rule_type = ''SOC_LOW'', message = ''State of Charge below 20%''\<rparr>,
       \<lparr>field = ''voltage'', op = ''gt'', threshold = 250, severity = ''HIGH'',
        rule_type = ''VOLTAGE_HIGH'', message = ''Voltage exceeds 250V''\<rparr>,
       \<lparr>field = ''temperature'', op = ''gt'', threshold = 60, severity = ''HIGH'',
        rule_type = ''TEMP_HIGH'', message = ''Temperature above 60C''\<rparr> ]"

fun evaluate_loop :: "rule list \<Rightarrow> payload \<Rightarrow> alert list \<times> float_error option" where
  "evaluate_loop [] p = ([], None)"
| "evaluate_loop (r # rs) p =
     (case check r p of
        Inl e \<Rightarrow> ([], Some e)
      | Inr None \<Rightarrow> evaluate_loop rs p
      | Inr (Some res) \<Rightarrow>
          (\<lparr>alert_type = rule_type r, alert_severity = severity r, alert_message = message r,
            alert_value = fst res, alert_threshold = snd res\<rparr> # fst (evaluate_loop rs p),
           snd (evaluate_loop rs p)))"

definition evaluate :: "payload \<Rightarrow> alert list \<times> float_error option" where
  "evaluate p = evaluate_loop RULES p"

text \<open>The alerts a rule contributes: one when its check gives a result, none otherwise.\<close>

definition alerts_of :: "payload \<Rightarrow> rule \<Rightarrow> alert list" where
  "alerts_of p r =
     (case check r p of
        Inr (Some res) \<Rightarrow>
          [\<lparr>alert_type = rule_type r, alert_severity = severity r, alert_message = message r,
            alert_value = fst res, alert_threshold = snd res\<rparr>]
      | _ \<Rightarrow> [])"

section \<open>Decision history (backend/app/crud.py, backend/app/main.py)\<close>

text \<open>
  A row of the table \<open>rl_decision_logs\<close> with the columns the listing reads: the
  primary key \<open>id\<close> (here \<open>id_row\<close>), the device and the flags. The table is the list
  of its rows, in any order. \<open>limit\<close> is a count, a natural number.

  The query of \<open>list_rl_decisions\<close> filters by device, then by \<open>id < before_id\<close>
  when a cursor is given, orders by \<open>id\<close> descending and keeps at most \<open>limit + 1\<close>
  rows.
\<close>

record rl_decision_log =
  id_row :: int
  device_id :: string
  safety_flags :: "string list"

definition list_rl_decisions ::
  "rl_decision_log list \<Rightarrow> string \<Rightarrow> nat \<Rightarrow> int option \<Rightarrow> rl_decision_log list \<times> bool" where
  "list_rl_decisions db device limit before_id =
     (let q = filter (\<lambda>r. device_id r = device) db;
          q = (case before_id of None \<Rightarrow> q | Some b \<Rightarrow> filter (\<lambda>r. id_row r < b) q);
          rows = take (limit + 1) (rev (sort_key id_row q));
          has_more = (length rows > limit);
          rows = (if has_more then take limit rows else rows)
      in (rows, has_more))"

text \<open>
  The loop of \<open>rl_history\<close> over the rows keeps the smallest id seen in \<open>min_id\<close>
  (\<open>None\<close> before the first row); the items it builds carry the columns of each row.
  The result is the triple \<open>decisions\<close>, \<open>next_before_id\<close>, \<open>has_more\<close>.
\<close>

fun min_id_loop :: "int option \<Rightarrow> rl_decision_log list \<Rightarrow> int option" where
  "min_id_loop min_id [] = min_id"
| "min_id_loop min_id (r # rs) =
     min_id_loop
       (case min_id of
          None \<Rightarrow> Some (id_row r)
        | Some m \<Rightarrow> if id_row r < m then Some (id_row r) else min_id)
       rs"

definition rl_history ::
  "rl_decision_log list \<Rightarrow> string \<Rightarrow> nat \<Rightarrow> int option
     \<Rightarrow> rl_decision_log list \<times> int option \<times> bool" where
  "rl_history db device limit before_id =
     (let (rows, has_more) = list_rl_decisions db device limit before_id;
          min_id = min_id_loop None rows;
          next_before = (if has_more \<and> min_id \<noteq> None then min_id else None)
      in (rows, next_before, has_more))"

text \<open>The rows a listing is about: those of the device, below the cursor if there is one.\<close>

definition matching :: "rl_decision_log list \<Rightarrow> string \<Rightarrow> int option \<Rightarrow> rl_decision_log list" where
  "matching db device before_id =
     filter (\<lambda>r. device_id r = device \<and> (case before_id of None \<Rightarrow> True | Some b \<Rightarrow> id_row r < b)) db"

section \<open>Deduplication cache (backend/app/main.py, handle\_ingested)\<close>

text \<open>
  The cache is a \<open>dict\<close> whose values are all \<open>None\<close>: the list of its keys in
  insertion order, without repetition. \<open>del cache[k]\<close> raises \<open>KeyError\<close> when
  \<open>k\<close> is not a key; that is the result \<open>None\<close> of \<open>del_key\<close>.
\<close>

type_synonym dedup_key = "string \<times> string"

type_synonym dedup_cache = "dedup_key list"

definition DEDUP_MAX :: nat where
  "DEDUP_MAX = 5000"

definition dedup_key :: "string \<Rightarrow> string \<Rightarrow> dedup_key" where
  "dedup_key device ts_iso = (device, ts_iso)"

definition del_key :: "dedup_key \<Rightarrow> dedup_cache \<Rightarrow> dedup_cache option" where
  "del_key k cache = (if k \<in> set cache then Some (remove1 k cache) else None)"

text \<open>
  \<^verbatim>\<open>for i, k in enumerate(list(cache.keys())): del cache[k]; if i > _DEDUP_MAX//10: break\<close>
  runs over a snapshot of the keys, counting from \<open>i = 0\<close>.
\<close>

fun evict_loop :: "nat \<Rightarrow> dedup_key list \<Rightarrow> dedup_cache \<Rightarrow> dedup_cache option" where
  "evict_loop i [] cache = Some cache"
| "evict_loop i (k # ks) cache =
     (case del_key k cache of
        None \<Rightarrow> None
      | Some cache' \<Rightarrow>
          if i > DEDUP_MAX div 10 then Some cache' else evict_loop (Suc i) ks cache')"

text \<open>
  The deduplication steps of \<open>handle_ingested\<close> for one key: a key already in the
  cache is discarded (\<open>False\<close>, cache unchanged); otherwise the cache is trimmed when
  it holds \<open>DEDUP_MAX\<close> keys or more, and the key is inserted (\<open>True\<close>).
\<close>

definition dedup_insert :: "dedup_cache \<Rightarrow> dedup_key \<Rightarrow> (dedup_cache \<times> bool) option" where
  "dedup_insert cache key =
     (if key \<in> set cache then Some (cache, False)
      else case (if length cache \<ge> DEDUP_MAX then evict_loop 0 cache cache else Some cache) of
             None \<Rightarrow> None
           | Some cache' \<Rightarrow> Some (cache' @ [key], True))"

section \<open>Properties of the safety supervisor\<close>

lemma run_step:
  "m k = Some v \<Longrightarrow>
   run_stmts (clamp_stmt G k cond c f # ss) (m, fl) =
   run_stmts ss (m(k \<mapsto> stmt_value (G \<and> cond v) c v), fl @ stmt_flag (G \<and> cond v) f)"
  by (auto simp: clamp_stmt_def getitem_def stmt_value_def stmt_flag_def fun_upd_idem)

lemma apply_safety_closed_form:
  assumes "m ''battery_kw'' = Some b" "m ''grid_kw'' = Some g"
    "m ''ev_kw'' = Some e" "m ''curtailment'' = Some c"
  shows "apply_safety m soc =
     Inr (m(''battery_kw'' \<mapsto> battery_final soc b, ''grid_kw'' \<mapsto> range_final 5000 g,
            ''ev_kw'' \<mapsto> range_final 450 e, ''curtailment'' \<mapsto> range_final 1 c),
          battery_flags soc b @ range_flags 5000 ''NO_EXPORT_SUPPORTED'' ''CLAMP_GRID_IMPORT'' g @
          range_flags 450 ''NEG_EV_POWER'' ''CLAMP_EV_CHARGE'' e @
          range_flags 1 ''CURTAILMENT_NEG'' ''CURTAILMENT_GT1'' c)"
  unfolding apply_safety_def
  apply (subst run_step [where v = b], simp add: assms)
  apply (subst run_step [where v = "stmt_value (soc < 0.20 \<and> b < 0) 0 b"], simp)
  apply (subst run_step [where v = "stmt_value (soc > 0.90 \<and> stmt_value (soc < 0.20 \<and> b < 0) 0 b > 0) 0 (stmt_value (soc < 0.20 \<and> b < 0) 0 b)"], simp)
  apply (subst run_step, simp)
  apply (subst run_step [where v = g], simp add: assms)
  apply (subst run_step, simp)
  apply (subst run_step [where v = e], simp add: assms)
  apply (subst run_step, simp)
  apply (subst run_step [where v = c], simp add: assms)
  apply (subst run_step, simp)
  apply (simp add: battery_final_def battery_flags_def range_final_def range_flags_def Let_def
      BATTERY_MAX_CHARGE_TOTAL_def BATTERY_MAX_DISCHARGE_TOTAL_def GRID_MAX_IMPORT_def EV_MAX_CHARGE_def)
  done


lemma clamp_stmt_absent:
  "m k = None \<Longrightarrow>
   clamp_stmt G k cond c f (m, fl) = (if G then Inl (KeyError k) else Inr (m, fl))"
  by (simp add: clamp_stmt_def getitem_def)

lemma run_raise:
  "m k = None \<Longrightarrow> run_stmts (clamp_stmt True k cond c f # ss) (m, fl) = Inl (KeyError k)"
  by (simp add: clamp_stmt_absent)

lemma run_skip_or_raise:
  "m k = None \<Longrightarrow>
   run_stmts (clamp_stmt G k cond c f # ss) (m, fl) =
     (if G then Inl (KeyError k) else run_stmts ss (m, fl))"
  by (simp add: clamp_stmt_absent)

lemma apply_safety_no_battery:
  assumes "m ''battery_kw'' = None"
  shows "apply_safety m soc = Inl (KeyError ''battery_kw'')"
  unfolding apply_safety_def
  apply (subst run_skip_or_raise, rule assms)
  apply (subst run_skip_or_raise, rule assms)
  apply (subst run_raise, rule assms)
  apply simp
  done

lemma apply_safety_no_grid:
  assumes "m ''battery_kw'' = Some b" "m ''grid_kw'' = None"
  shows "apply_safety m soc = Inl (KeyError ''grid_kw'')"
  unfolding apply_safety_def
  apply (subst run_step [where v = b], simp add: assms)
  apply (subst run_step, simp)
  apply (subst run_step, simp)
  apply (subst run_step, simp)
  apply (subst run_raise, simp add: assms)
  apply simp
  done

lemma apply_safety_no_ev:
  assumes "m ''battery_kw'' = Some b" "m ''grid_kw'' = Some g" "m ''ev_kw'' = None"
  shows "apply_safety m soc = Inl (KeyError ''ev_kw'')"
  unfolding apply_safety_def
  apply (subst run_step [where v = b], simp add: assms)
  apply (subst run_step, simp)
  apply (subst run_step, simp)
  apply (subst run_step, simp)
  apply (subst run_step [where v = g], simp add: assms)
  apply (subst run_step, simp)
  apply (subst run_raise, simp add: assms)
  apply simp
  done

lemma apply_safety_no_curtailment:
  assumes "m ''battery_kw'' = Some b" "m ''grid_kw'' = Some g" "m ''ev_kw'' = Some e"
    "m ''curtailment'' = None"
  shows "apply_safety m soc = Inl (KeyError ''curtailment'')"
  unfolding apply_safety_def
  apply (subst run_step [where v = b], simp add: assms)
  apply (subst run_step, simp)
  apply (subst run_step, simp)
  apply (subst run_step, simp)
  apply (subst run_step [where v = g], simp add: assms)
  apply (subst run_step, simp)
  apply (subst run_step [where v = e], simp add: assms)
  apply (subst run_step, simp)
  apply (subst run_raise, simp add: assms)
  apply simp
  done



lemma range_final_eq: "0 \<le> hi \<Longrightarrow> range_final hi v = (if v < 0 then 0 else if v > hi then hi else v)"
  by (simp add: range_final_def stmt_value_def Let_def)

lemma battery_final_idem: "battery_final soc (battery_final soc b) = battery_final soc b"
  by (simp add: battery_final_def stmt_value_def Let_def)

lemma battery_flags_idem: "battery_flags soc (battery_final soc b) = []"
  by (simp add: battery_final_def battery_flags_def stmt_flag_def stmt_value_def Let_def)

lemma range_final_idem: "0 \<le> hi \<Longrightarrow> range_final hi (range_final hi v) = range_final hi v"
  by (simp add: range_final_def stmt_value_def Let_def)

lemma range_flags_idem: "0 \<le> hi \<Longrightarrow> range_flags hi f1 f2 (range_final hi v) = []"
  by (simp add: range_final_def range_flags_def stmt_flag_def stmt_value_def Let_def)

text \<open>
  C1 (as stated, refuted). The claim says that \<open>apply_safety\<close> never raises, also on
  a dictionary that lacks one of \<open>battery_kw\<close>, \<open>grid_kw\<close>, \<open>ev_kw\<close>,
  \<open>curtailment\<close>. On a dictionary without \<open>battery_kw\<close> the call raises
  \<open>KeyError\<close>.
\<close>

theorem apply_safety_missing_field_raises:
  "apply_safety [''grid_kw'' \<mapsto> 100, ''ev_kw'' \<mapsto> 10, ''curtailment'' \<mapsto> 0] 0.5
     = Inl (KeyError ''battery_kw'')"
  by (rule apply_safety_no_battery) simp

text \<open>
  C1 (amended). For every state of charge, \<open>apply_safety\<close> returns an action and a
  flag list on every dictionary that has the four fields \<open>battery_kw\<close>, \<open>grid_kw\<close>,
  \<open>ev_kw\<close>, \<open>curtailment\<close>; on a dictionary that lacks one of them it raises
  \<open>KeyError\<close> for a missing field, and returns nothing.
\<close>

theorem apply_safety_total_on_complete:
  "(m ''battery_kw'' \<noteq> None \<and> m ''grid_kw'' \<noteq> None \<and> m ''ev_kw'' \<noteq> None \<and>
    m ''curtailment'' \<noteq> None \<longrightarrow> (\<exists>safe flags. apply_safety m soc = Inr (safe, flags))) \<and>
   (m ''battery_kw'' = None \<or> m ''grid_kw'' = None \<or> m ''ev_kw'' = None \<or>
    m ''curtailment'' = None \<longrightarrow>
      (\<exists>k \<in> {''battery_kw'', ''grid_kw'', ''ev_kw'', ''curtailment''}.
         m k = None \<and> apply_safety m soc = Inl (KeyError k)))"
proof (intro conjI impI)
  assume "m ''battery_kw'' \<noteq> None \<and> m ''grid_kw'' \<noteq> None \<and> m ''ev_kw'' \<noteq> None \<and>
    m ''curtailment'' \<noteq> None"
  then obtain b g e c where "m ''battery_kw'' = Some b" "m ''grid_kw'' = Some g"
    "m ''ev_kw'' = Some e" "m ''curtailment'' = Some c"
    by auto
  then show "\<exists>safe flags. apply_safety m soc = Inr (safe, flags)"
    by (simp add: apply_safety_closed_form [where m = m])
next
  assume missing: "m ''battery_kw'' = None \<or> m ''grid_kw'' = None \<or> m ''ev_kw'' = None \<or>
    m ''curtailment'' = None"
  show "\<exists>k \<in> {''battery_kw'', ''grid_kw'', ''ev_kw'', ''curtailment''}.
         m k = None \<and> apply_safety m soc = Inl (KeyError k)"
  proof (cases "m ''battery_kw''")
    case None
    then show ?thesis using apply_safety_no_battery [where m = m] by blast
  next
    case (Some b)
    note B = this
    show ?thesis
    proof (cases "m ''grid_kw''")
      case None
      then show ?thesis using B apply_safety_no_grid [where m = m] by blast
    next
      case (Some g)
      note G = this
      show ?thesis
      proof (cases "m ''ev_kw''")
        case None
        then show ?thesis using B G apply_safety_no_ev [where m = m] by blast
      next
        case (Some e)
        note E = this
        from missing B G E have C: "m ''curtailment'' = None" by simp
        then show ?thesis using B G E apply_safety_no_curtailment [where m = m] by blast
      qed
    qed
  qed
qed

theorem apply_safety_total_on_complete_example:
  "(\<exists>safe flags.
      apply_safety [''battery_kw'' \<mapsto> 100, ''grid_kw'' \<mapsto> 50, ''ev_kw'' \<mapsto> 10, ''curtailment'' \<mapsto> 0] 0.5
        = Inr (safe, flags)) \<and>
   (\<exists>k \<in> {''battery_kw'', ''grid_kw'', ''ev_kw'', ''curtailment''}.
      [''battery_kw'' \<mapsto> 100, ''grid_kw'' \<mapsto> 50] k = None \<and>
      apply_safety [''battery_kw'' \<mapsto> 100, ''grid_kw'' \<mapsto> 50] 0.5 = Inl (KeyError k))"
  using apply_safety_total_on_complete [of "[''battery_kw'' \<mapsto> 100, ''grid_kw'' \<mapsto> 50, ''ev_kw'' \<mapsto> 10, ''curtailment'' \<mapsto> 0]" "0.5"]
    apply_safety_total_on_complete [of "[''battery_kw'' \<mapsto> 100, ''grid_kw'' \<mapsto> 50]" "0.5"]
  by simp

text \<open>
  C3. When the state-of-charge fraction is below 0.20 and the requested \<open>battery_kw\<close>
  is negative, \<open>apply_safety\<close> returns an action whose \<open>battery_kw\<close> is 0 and a
  flag list that contains \<open>BLOCK_DISCHARGE_LOW_SOC\<close>.
\<close>

theorem block_discharge_low_soc:
  assumes "m ''battery_kw'' = Some b" "m ''grid_kw'' = Some g"
    "m ''ev_kw'' = Some e" "m ''curtailment'' = Some c"
    and "b < 0" "soc < 0.20"
  shows "\<exists>safe flags. apply_safety m soc = Inr (safe, flags) \<and>
           safe ''battery_kw'' = Some 0 \<and> ''BLOCK_DISCHARGE_LOW_SOC'' \<in> set flags"
proof -
  have "battery_final soc b = 0"
    using assms(5,6) by (simp add: battery_final_def stmt_value_def Let_def)
  moreover have "''BLOCK_DISCHARGE_LOW_SOC'' \<in> set (battery_flags soc b)"
    using assms(5,6) by (simp add: battery_flags_def stmt_flag_def Let_def)
  ultimately show ?thesis
    using assms(1-4) by (simp add: apply_safety_closed_form [where m = m])
qed

theorem block_discharge_low_soc_scenario:
  "(- 500 :: real) < 0 \<and> (0.10 :: real) < 0.20 \<and>
   (\<exists>safe flags.
      apply_safety [''battery_kw'' \<mapsto> - 500, ''grid_kw'' \<mapsto> 0, ''ev_kw'' \<mapsto> 0, ''curtailment'' \<mapsto> 0] 0.10
        = Inr (safe, flags) \<and>
      safe ''battery_kw'' = Some 0 \<and> ''BLOCK_DISCHARGE_LOW_SOC'' \<in> set flags)"
  using block_discharge_low_soc [where m = "[''battery_kw'' \<mapsto> - 500, ''grid_kw'' \<mapsto> 0, ''ev_kw'' \<mapsto> 0, ''curtailment'' \<mapsto> 0]"
      and b = "- 500" and g = 0 and e = 0 and c = 0 and soc = "0.10"]
  by simp

text \<open>
  C4. \<open>apply_safety\<close> returns \<open>grid_kw\<close> forced to 0 when it was negative, and
  otherwise cut to 5000 when it was above; \<open>NO_EXPORT_SUPPORTED\<close> is among the flags
  exactly when \<open>grid_kw\<close> was negative, and \<open>CLAMP_GRID_IMPORT\<close> exactly when it was
  above 5000.
\<close>

theorem grid_no_export_then_clamp:
  assumes "m ''battery_kw'' = Some b" "m ''grid_kw'' = Some g"
    "m ''ev_kw'' = Some e" "m ''curtailment'' = Some c"
  shows "\<exists>safe flags. apply_safety m soc = Inr (safe, flags) \<and>
           safe ''grid_kw'' = Some (if g < 0 then 0 else if g > 5000 then 5000 else g) \<and>
           (''NO_EXPORT_SUPPORTED'' \<in> set flags \<longleftrightarrow> g < 0) \<and>
           (''CLAMP_GRID_IMPORT'' \<in> set flags \<longleftrightarrow> g > 5000)"
proof -
  have 1: "''NO_EXPORT_SUPPORTED'' \<notin> set (battery_flags soc b)"
    "''CLAMP_GRID_IMPORT'' \<notin> set (battery_flags soc b)"
    by (simp_all add: battery_flags_def stmt_flag_def Let_def)
  have 2: "''NO_EXPORT_SUPPORTED'' \<notin> set (range_flags 450 ''NEG_EV_POWER'' ''CLAMP_EV_CHARGE'' e)"
    "''CLAMP_GRID_IMPORT'' \<notin> set (range_flags 450 ''NEG_EV_POWER'' ''CLAMP_EV_CHARGE'' e)"
    "''NO_EXPORT_SUPPORTED'' \<notin> set (range_flags 1 ''CURTAILMENT_NEG'' ''CURTAILMENT_GT1'' c)"
    "''CLAMP_GRID_IMPORT'' \<notin> set (range_flags 1 ''CURTAILMENT_NEG'' ''CURTAILMENT_GT1'' c)"
    by (simp_all add: range_flags_def stmt_flag_def Let_def)
  have 3: "''NO_EXPORT_SUPPORTED'' \<in> set (range_flags 5000 ''NO_EXPORT_SUPPORTED'' ''CLAMP_GRID_IMPORT'' g) \<longleftrightarrow> g < 0"
    "''CLAMP_GRID_IMPORT'' \<in> set (range_flags 5000 ''NO_EXPORT_SUPPORTED'' ''CLAMP_GRID_IMPORT'' g) \<longleftrightarrow> g > 5000"
    by (simp_all add: range_flags_def stmt_flag_def stmt_value_def Let_def)
  show ?thesis
    using assms by (simp add: apply_safety_closed_form [where m = m] 1 2 3 range_final_eq)
qed

theorem grid_no_export_scenario:
  "\<exists>safe flags.
      apply_safety [''battery_kw'' \<mapsto> 0, ''grid_kw'' \<mapsto> - 200, ''ev_kw'' \<mapsto> 0, ''curtailment'' \<mapsto> 0] 0.5
        = Inr (safe, flags) \<and>
      safe ''grid_kw'' = Some 0 \<and> ''NO_EXPORT_SUPPORTED'' \<in> set flags \<and>
      ''CLAMP_GRID_IMPORT'' \<notin> set flags"
  using grid_no_export_then_clamp [where m = "[''battery_kw'' \<mapsto> 0, ''grid_kw'' \<mapsto> - 200, ''ev_kw'' \<mapsto> 0, ''curtailment'' \<mapsto> 0]"
      and b = 0 and g = "- 200" and e = 0 and c = 0 and soc = "0.5"]
  by simp


lemma apply_safety_fixed_point:
  assumes "m ''battery_kw'' = Some b" "m ''grid_kw'' = Some g"
    "m ''ev_kw'' = Some e" "m ''curtailment'' = Some c"
  shows "\<exists>safe flags. apply_safety m soc = Inr (safe, flags) \<and>
           apply_safety safe soc = Inr (safe, [])"
proof -
  define safe where "safe = m(''battery_kw'' \<mapsto> battery_final soc b,
    ''grid_kw'' \<mapsto> range_final 5000 g, ''ev_kw'' \<mapsto> range_final 450 e,
    ''curtailment'' \<mapsto> range_final 1 c)"
  have first: "apply_safety m soc = Inr (safe,
          battery_flags soc b @ range_flags 5000 ''NO_EXPORT_SUPPORTED'' ''CLAMP_GRID_IMPORT'' g @
          range_flags 450 ''NEG_EV_POWER'' ''CLAMP_EV_CHARGE'' e @
          range_flags 1 ''CURTAILMENT_NEG'' ''CURTAILMENT_GT1'' c)"
    unfolding safe_def by (rule apply_safety_closed_form) (rule assms)+
  have look: "safe ''battery_kw'' = Some (battery_final soc b)"
    "safe ''grid_kw'' = Some (range_final 5000 g)"
    "safe ''ev_kw'' = Some (range_final 450 e)"
    "safe ''curtailment'' = Some (range_final 1 c)"
    by (simp_all add: safe_def)
  have "apply_safety safe soc = Inr (safe, [])"
    by (simp add: apply_safety_closed_form [where m = safe, OF look]
        battery_final_idem battery_flags_idem range_final_idem range_flags_idem
        map_upd_triv look)
  with first show ?thesis by blast
qed




text \<open>
  C5 (as stated, refuted). The claim equates the result of a second application, action
  and flags, with the result of the first. For an action with \<open>grid_kw = -200\<close> the
  first application returns the flag \<open>NO_EXPORT_SUPPORTED\<close> and the second returns no
  flag, so the two results differ.
\<close>

theorem supervise_twice_differs_in_flags:
  "supervise_again
     (apply_safety [''battery_kw'' \<mapsto> 0, ''grid_kw'' \<mapsto> - 200, ''ev_kw'' \<mapsto> 0, ''curtailment'' \<mapsto> 0] 0.5) 0.5
   \<noteq> apply_safety [''battery_kw'' \<mapsto> 0, ''grid_kw'' \<mapsto> - 200, ''ev_kw'' \<mapsto> 0, ''curtailment'' \<mapsto> 0] 0.5"
proof -
  let ?a = "[''battery_kw'' \<mapsto> 0, ''grid_kw'' \<mapsto> - 200, ''ev_kw'' \<mapsto> 0, ''curtailment'' \<mapsto> (0::real)]"
  have look: "?a ''battery_kw'' = Some 0" "?a ''grid_kw'' = Some (- 200)"
    "?a ''ev_kw'' = Some 0" "?a ''curtailment'' = Some 0"
    by simp_all
  obtain safe flags where 1: "apply_safety ?a 0.5 = Inr (safe, flags)"
    and 2: "apply_safety safe 0.5 = Inr (safe, [])"
    using apply_safety_fixed_point [where m = ?a, OF look] by blast
  have "range_flags 5000 ''NO_EXPORT_SUPPORTED'' ''CLAMP_GRID_IMPORT'' (- 200) \<noteq> []"
    by (simp add: range_flags_def stmt_flag_def Let_def)
  then have "flags \<noteq> []"
    using 1 by (auto simp: apply_safety_closed_form [where m = ?a, OF look])
  with 1 2 show ?thesis by (simp add: supervise_again_def)
qed

text \<open>
  C5 (amended). The action returned by \<open>apply_safety\<close> is a fixed point: applying the
  supervisor to it again, with the same state of charge, returns the same action, and
  the flag list of this second application is empty.
\<close>

theorem supervise_action_idempotent:
  assumes "m ''battery_kw'' = Some b" "m ''grid_kw'' = Some g"
    "m ''ev_kw'' = Some e" "m ''curtailment'' = Some c"
  shows "\<exists>safe flags. apply_safety m soc = Inr (safe, flags) \<and>
           supervise_again (apply_safety m soc) soc = Inr (safe, [])"
  using apply_safety_fixed_point [where m = m, OF assms, of soc]
  by (auto simp: supervise_again_def)

theorem supervise_action_idempotent_example:
  "\<exists>safe flags.
     apply_safety [''battery_kw'' \<mapsto> - 900, ''grid_kw'' \<mapsto> - 200, ''ev_kw'' \<mapsto> 500,
                   ''curtailment'' \<mapsto> 2] 0.5 = Inr (safe, flags) \<and>
     supervise_again
       (apply_safety [''battery_kw'' \<mapsto> - 900, ''grid_kw'' \<mapsto> - 200, ''ev_kw'' \<mapsto> 500,
                      ''curtailment'' \<mapsto> 2] 0.5) 0.5 = Inr (safe, [])"
  using supervise_action_idempotent [where m = "[''battery_kw'' \<mapsto> - 900, ''grid_kw'' \<mapsto> - 200,
        ''ev_kw'' \<mapsto> 500, ''curtailment'' \<mapsto> 2]"
      and b = "- 900" and g = "- 200" and e = 500 and c = 2 and soc = "0.5"]
  by simp

section \<open>Properties of the semantic mapper\<close>

lemma pad_loop_eq: "pad_loop v = v @ replicate (5 - length v) 0"
proof (induction v rule: pad_loop.induct)
  case (1 v)
  show ?case
  proof (cases "length v < 5")
    case True
    then have "pad_loop v = pad_loop (v @ [0])" by (subst pad_loop.simps) simp
    also have "\<dots> = (v @ [0]) @ replicate (5 - length (v @ [0])) 0" using 1 True by blast
    also have "\<dots> = v @ replicate (Suc (5 - length (v @ [0]))) 0" by (simp add: replicate_Suc)
    also have "Suc (5 - length (v @ [0])) = 5 - length v" using True by simp
    finally show ?thesis .
  next
    case False
    then show ?thesis by (subst pad_loop.simps) simp
  qed
qed

lemma pad_loop_right_padded: "pad_loop v = right_padded v"
  by (simp add: pad_loop_eq right_padded_def)

lemma length_pad_loop: "5 \<le> length (pad_loop v)"
  by (simp add: pad_loop_eq)

lemma right_padded_idem: "right_padded (right_padded v) = right_padded v"
  by (simp add: right_padded_def)

text \<open>
  C6 (as stated, refuted). The claim includes the empty vector. On the empty vector
  \<open>map_action\<close> returns the all-zero action, with curtailment 0; on five zeros it
  returns curtailment 1/2.
\<close>

theorem map_action_empty_not_padded:
  "fst (map_action []) \<noteq> fst (map_action (right_padded []))"
proof
  assume eq: "fst (map_action []) = fst (map_action (right_padded []))"
  have "fst (map_action []) ''curtailment'' = Some 0"
    by (simp add: map_action_def)
  moreover have "fst (map_action (right_padded [])) ''curtailment'' = Some (1 / 2)"
    by (simp add: map_action_def Let_def pad_loop_right_padded right_padded_idem)
      (simp add: right_padded_def numeral_eq_Suc)
  ultimately show False using eq by simp
qed

text \<open>
  C6 (amended). For every non-empty raw vector of length below 5, \<open>map_action\<close> returns
  the same semantic action as on the vector right-padded with zeros to length 5. On the
  empty vector it returns the all-zero action.
\<close>

theorem map_action_short_as_padded:
  "(v \<noteq> [] \<and> length v < 5 \<longrightarrow> fst (map_action v) = fst (map_action (right_padded v))) \<and>
   fst (map_action []) =
     [''battery_kw'' \<mapsto> 0, ''battery1_kw'' \<mapsto> 0, ''battery2_kw'' \<mapsto> 0,
      ''grid_kw'' \<mapsto> 0, ''ev_kw'' \<mapsto> 0, ''curtailment'' \<mapsto> 0]"
proof (intro conjI impI)
  assume "v \<noteq> [] \<and> length v < 5"
  then have "right_padded v \<noteq> []" by (simp add: right_padded_def)
  then show "fst (map_action v) = fst (map_action (right_padded v))"
    using \<open>v \<noteq> [] \<and> length v < 5\<close>
    by (simp add: map_action_def pad_loop_right_padded right_padded_idem)
next
  show "fst (map_action []) =
     [''battery_kw'' \<mapsto> 0, ''battery1_kw'' \<mapsto> 0, ''battery2_kw'' \<mapsto> 0,
      ''grid_kw'' \<mapsto> 0, ''ev_kw'' \<mapsto> 0, ''curtailment'' \<mapsto> 0]"
    by (simp add: map_action_def)
qed

theorem map_action_short_as_padded_example:
  "[0.5, - 1] \<noteq> ([]::real list) \<and> length [0.5, - 1 :: real] < 5 \<and>
   fst (map_action [0.5, - 1]) = fst (map_action [0.5, - 1, 0, 0, 0])"
  using map_action_short_as_padded [of "[0.5, - 1]"]
  by (simp add: right_padded_def numeral_eq_Suc)

text \<open>
  C10. \<open>map_action\<close> changes its argument: for a raw vector of length 1 to 4, the
  caller's list holds, after the call, the old elements followed by zeros, and has
  length 5; it is no longer the list that was passed.
\<close>

theorem map_action_mutates_argument:
  assumes "1 \<le> length v" "length v \<le> 4"
  shows "snd (map_action v) = v @ replicate (5 - length v) 0 \<and>
         length (snd (map_action v)) = 5 \<and> snd (map_action v) \<noteq> v"
proof -
  from assms have "v \<noteq> []" by auto
  then have "snd (map_action v) = v @ replicate (5 - length v) 0"
    by (simp add: map_action_def Let_def pad_loop_eq)
  moreover have "length (v @ replicate (5 - length v) (0::real)) = 5"
    using assms by simp
  ultimately show ?thesis using assms by auto
qed

theorem map_action_mutates_argument_example:
  "1 \<le> length [0.5::real] \<and> length [0.5::real] \<le> 4 \<and>
   snd (map_action [0.5]) = [0.5, 0, 0, 0, 0] \<and> length (snd (map_action [0.5])) = 5"
  using map_action_mutates_argument [of "[0.5]"] by (simp add: numeral_eq_Suc)

section \<open>Properties of the rule evaluator\<close>

lemma check_absent: "p (field r) = None \<Longrightarrow> check r p = Inr None"
  by (simp add: check_def)

lemma check_present:
  "p (field r) = Some (Number v) \<Longrightarrow>
   check r p = Inr (if (op r = ''lt'' \<and> v < threshold r) \<or> (op r = ''gt'' \<and> v > threshold r)
                    then Some (v, threshold r) else None)"
  by (simp add: check_def float_of_def)

lemma check_not_number: "p (field r) = Some NotNumber \<Longrightarrow> check r p = Inl FloatError"
  by (simp add: check_def float_of_def)

lemma check_no_raise:
  "p (field r) \<noteq> Some NotNumber \<Longrightarrow> \<exists>res. check r p = Inr res"
proof (cases "p (field r)")
  case None
  then show ?thesis by (simp add: check_absent)
next
  case (Some x)
  assume "p (field r) \<noteq> Some NotNumber"
  with Some obtain v where "x = Number v" by (cases x) auto
  with Some show ?thesis by (simp add: check_present)
qed

lemma evaluate_loop_alerts:
  "\<forall>r \<in> set rs. p (field r) \<noteq> Some NotNumber \<Longrightarrow>
   evaluate_loop rs p = (concat (map (alerts_of p) rs), None)"
proof (induction rs)
  case Nil
  show ?case by simp
next
  case (Cons r rs)
  then have IH: "evaluate_loop rs p = (concat (map (alerts_of p) rs), None)" by simp
  from Cons.prems obtain res where chk: "check r p = Inr res"
    using check_no_raise [of p r] by auto
  show ?case
  proof (cases res)
    case None
    with chk have "alerts_of p r = []" by (simp add: alerts_of_def)
    with chk None IH show ?thesis by simp
  next
    case (Some a)
    with chk have "alerts_of p r =
        [\<lparr>alert_type = rule_type r, alert_severity = severity r, alert_message = message r,
          alert_value = fst a, alert_threshold = snd a\<rparr>]"
      by (simp add: alerts_of_def)
    with chk Some IH show ?thesis by simp
  qed
qed

text \<open>
  C7. A rule whose field is absent from the payload gives no result and raises nothing;
  a rule whose field is present with a number gives the observed value and the
  threshold exactly when its \<open>lt\<close> or \<open>gt\<close> comparison holds. On a payload whose
  present rule fields are numbers, \<open>evaluate\<close> raises nothing and yields, in the order of
  \<open>RULES\<close>, one alert carrying the observed value and the threshold for each rule
  that gives a result, and none for the other rules.
\<close>

theorem rule_evaluator_alerts:
  "(p (field r) = None \<longrightarrow> check r p = Inr None \<and> alerts_of p r = []) \<and>
   (\<forall>v. p (field r) = Some (Number v) \<longrightarrow>
      check r p = Inr (if (op r = ''lt'' \<and> v < threshold r) \<or> (op r = ''gt'' \<and> v > threshold r)
                       then Some (v, threshold r) else None)) \<and>
   ((\<forall>r \<in> set RULES. p (field r) \<noteq> Some NotNumber) \<longrightarrow>
      evaluate p = (concat (map (alerts_of p) RULES), None))"
  by (simp add: check_absent check_present evaluate_def evaluate_loop_alerts alerts_of_def)

theorem rule_evaluator_alerts_example:
  "check \<lparr>field = ''voltage'', op = ''gt'', threshold = 250, severity = ''HIGH'',
          rule_type = ''VOLTAGE_HIGH'', message = ''Voltage exceeds 250V''\<rparr>
         [''soc'' \<mapsto> Number 15, ''temperature'' \<mapsto> Number 70] = Inr None \<and>
   evaluate [''soc'' \<mapsto> Number 15, ''temperature'' \<mapsto> Number 70] =
     ([ \<lparr>alert_type = ''SOC_LOW'', alert_severity = ''WARN'',
         alert_message = ''State of Charge below 20%'', alert_value = 15, alert_threshold = 20\<rparr>,
        \<lparr>alert_type = ''TEMP_HIGH'', alert_severity = ''HIGH'',
         alert_message = ''Temperature above 60C'', alert_value = 70, alert_threshold = 60\<rparr> ],
      None)"
  using rule_evaluator_alerts [of "[''soc'' \<mapsto> Number 15, ''temperature'' \<mapsto> Number 70]"
      "\<lparr>field = ''voltage'', op = ''gt'', threshold = 250, severity = ''HIGH'',
          rule_type = ''VOLTAGE_HIGH'', message = ''Voltage exceeds 250V''\<rparr>"]
  by (simp add: RULES_def alerts_of_def check_def float_of_def)

section \<open>Properties of the decision history\<close>

lemma query_matching:
  "(case before_id of
      None \<Rightarrow> filter (\<lambda>r. device_id r = device) db
    | Some b \<Rightarrow> filter (\<lambda>r. id_row r < b) (filter (\<lambda>r. device_id r = device) db))
   = matching db device before_id"
  by (cases before_id) (auto simp: matching_def intro: filter_cong)

lemma list_rl_decisions_eq:
  "list_rl_decisions db device limit before_id =
     (take limit (rev (sort_key id_row (matching db device before_id))),
      limit < length (matching db device before_id))"
proof -
  let ?S = "rev (sort_key id_row (matching db device before_id))"
  have len: "length ?S = length (matching db device before_id)" by simp
  have "list_rl_decisions db device limit before_id =
          (let rows = take (limit + 1) ?S; has_more = (length rows > limit)
           in (if has_more then take limit rows else rows, has_more))"
    by (simp add: list_rl_decisions_def Let_def query_matching)
  also have "\<dots> = (take limit ?S, limit < length ?S)"
    by (auto simp: Let_def min_def)
  finally show ?thesis by (simp only: len)
qed

lemma Min_insert_min:
  fixes a m :: int
  assumes "finite S"
  shows "Min (insert (min a m) S) = Min (insert m (insert a S))"
proof (cases "S = {}")
  case True
  then show ?thesis by (simp add: min.commute)
next
  case False
  with assms show ?thesis
    by (simp add: min.assoc min.commute min.left_commute)
qed

lemma min_id_loop_Some:
  "min_id_loop (Some m) rs = Some (Min (insert m (id_row ` set rs)))"
proof (induction rs arbitrary: m)
  case Nil
  show ?case by simp
next
  case (Cons r rs)
  have "min_id_loop (Some m) (r # rs) = min_id_loop (Some (min (id_row r) m)) rs"
    by (auto simp: min_def)
  also have "\<dots> = Some (Min (insert (min (id_row r) m) (id_row ` set rs)))"
    by (rule Cons.IH)
  also have "Min (insert (min (id_row r) m) (id_row ` set rs)) =
             Min (insert m (insert (id_row r) (id_row ` set rs)))"
    by (rule Min_insert_min) simp
  finally show ?case by simp
qed

lemma min_id_loop_None:
  "min_id_loop None rs = (if rs = [] then None else Some (Min (id_row ` set rs)))"
  by (cases rs) (simp_all add: min_id_loop_Some)

lemma sorted_desc:
  "sorted_wrt (\<lambda>r s. id_row s \<le> id_row r) (take n (rev (sort_key id_row xs)))"
proof -
  have "sorted (map id_row (sort_key id_row xs))" by simp
  then have "sorted_wrt (\<lambda>r s. id_row r \<le> id_row s) (sort_key id_row xs)"
    by (simp add: sorted_wrt_map)
  then have "sorted_wrt (\<lambda>r s. id_row s \<le> id_row r) (rev (sort_key id_row xs))"
    by (simp add: sorted_wrt_rev)
  then show ?thesis by (rule sorted_wrt_take)
qed

lemma set_take_matching:
  "r \<in> set (take n (rev (sort_key id_row (matching db device before_id)))) \<Longrightarrow>
   r \<in> set db \<and> device_id r = device \<and> (\<forall>b. before_id = Some b \<longrightarrow> id_row r < b)"
  by (auto dest!: in_set_takeD simp: matching_def)

text \<open>
  C8. The listing returns the matching rows (those of the device, with id below the
  cursor when one is given) in descending order of id, cut to the first \<open>limit\<close>;
  \<open>has_more\<close> is true exactly when more than \<open>limit\<close> rows match. \<open>rl_history\<close>
  returns these rows and, when \<open>has_more\<close> holds and a row was returned, the smallest
  returned id as \<open>next_before_id\<close>. With 30 matching rows and \<open>limit = 25\<close> it
  returns 25 rows, \<open>has_more\<close> true and \<open>next_before_id\<close> the smallest id returned.
\<close>

theorem history_listing:
  "list_rl_decisions db device limit before_id =
     (take limit (rev (sort_key id_row (matching db device before_id))),
      limit < length (matching db device before_id)) \<and>
   (let (rows, has_more) = list_rl_decisions db device limit before_id
    in sorted_wrt (\<lambda>r s. id_row s \<le> id_row r) rows \<and>
       (\<forall>r \<in> set rows. r \<in> set db \<and> device_id r = device \<and>
                        (\<forall>b. before_id = Some b \<longrightarrow> id_row r < b)) \<and>
       length rows = min limit (length (matching db device before_id)) \<and>
       (has_more \<longleftrightarrow> limit < length (matching db device before_id)) \<and>
       rl_history db device limit before_id =
         (rows, if has_more \<and> rows \<noteq> [] then Some (Min (id_row ` set rows)) else None, has_more) \<and>
       (length (matching db device before_id) = 30 \<and> limit = 25 \<longrightarrow>
          length rows = 25 \<and> has_more \<and>
          fst (snd (rl_history db device limit before_id)) = Some (Min (id_row ` set rows))))"
proof -
  let ?rows = "take limit (rev (sort_key id_row (matching db device before_id)))"
  have hist: "rl_history db device limit before_id =
      (?rows, if limit < length (matching db device before_id) \<and> ?rows \<noteq> []
              then Some (Min (id_row ` set ?rows)) else None,
       limit < length (matching db device before_id))"
    by (simp add: rl_history_def list_rl_decisions_eq min_id_loop_None del: take_eq_Nil)
  have scen: "length (matching db device before_id) = 30 \<and> limit = 25 \<longrightarrow>
      length ?rows = 25 \<and> limit < length (matching db device before_id) \<and> ?rows \<noteq> []"
  proof (intro impI)
    assume h: "length (matching db device before_id) = 30 \<and> limit = 25"
    then have "length ?rows = 25" by simp
    moreover from this have "?rows \<noteq> []" by (intro notI) (simp only: list.size)
    ultimately show "length ?rows = 25 \<and> limit < length (matching db device before_id) \<and> ?rows \<noteq> []"
      using h by simp
  qed
  show ?thesis
    unfolding list_rl_decisions_eq hist
    using sorted_desc [of limit "matching db device before_id"] 
      set_take_matching [of _ limit db device before_id] scen
    by (auto simp: min.commute simp del: take_eq_Nil)
qed


theorem history_listing_scenario:
  "length (matching (map (\<lambda>i. \<lparr>id_row = i, device_id = ''dev1'', safety_flags = []\<rparr>) [1..30] @
        [\<lparr>id_row = 31, device_id = ''dev2'', safety_flags = []\<rparr>]) ''dev1'' None) = 30 \<and>
   length (fst (rl_history (map (\<lambda>i. \<lparr>id_row = i, device_id = ''dev1'', safety_flags = []\<rparr>) [1..30] @
        [\<lparr>id_row = 31, device_id = ''dev2'', safety_flags = []\<rparr>]) ''dev1'' 25 None)) = 25 \<and>
   snd (rl_history (map (\<lambda>i. \<lparr>id_row = i, device_id = ''dev1'', safety_flags = []\<rparr>) [1..30] @
        [\<lparr>id_row = 31, device_id = ''dev2'', safety_flags = []\<rparr>]) ''dev1'' 25 None) = (Some 6, True)"
proof -
  let ?db = "map (\<lambda>i. \<lparr>id_row = i, device_id = ''dev1'', safety_flags = []\<rparr>) [1..30] @
        [\<lparr>id_row = 31, device_id = ''dev2'', safety_flags = []\<rparr>]"
  have m: "length (matching ?db ''dev1'' None) = 30"
    by (simp add: matching_def filter_map comp_def)
  have h: "rl_history ?db ''dev1'' 25 None
      = (map (\<lambda>i. \<lparr>id_row = i, device_id = ''dev1'', safety_flags = []\<rparr>) (rev [6..30]), Some 6, True)"
    by code_simp
  show ?thesis
    using history_listing [of ?db "''dev1''" 25 None] m h by (simp add: Let_def split: prod.splits)
qed

section \<open>Properties of the deduplication cache\<close>

lemma evict_loop_drop:
  "distinct (ks @ rest) \<Longrightarrow> i \<le> DEDUP_MAX div 10 + 1 \<Longrightarrow>
   evict_loop i ks (ks @ rest) = Some (drop (DEDUP_MAX div 10 + 2 - i) ks @ rest)"
proof (induction ks arbitrary: i)
  case Nil
  show ?case by simp
next
  case (Cons k ks)
  from Cons.prems(1) have del: "del_key k ((k # ks) @ rest) = Some (ks @ rest)"
    by (simp add: del_key_def)
  show ?case
  proof (cases "i > DEDUP_MAX div 10")
    case True
    with Cons.prems(2) have "DEDUP_MAX div 10 + 2 - i = 1" by simp
    with del True show ?thesis by simp
  next
    case False
    then have "DEDUP_MAX div 10 + 2 - i = Suc (DEDUP_MAX div 10 + 2 - Suc i)" by simp
    moreover have "evict_loop (Suc i) ks (ks @ rest) = Some (drop (DEDUP_MAX div 10 + 2 - Suc i) ks @ rest)"
      using Cons.IH [of "Suc i"] Cons.prems False by simp
    ultimately show ?thesis using del False by simp
  qed
qed

lemma evict_loop_whole:
  "distinct cache \<Longrightarrow> evict_loop 0 cache cache = Some (drop 502 cache)"
  using evict_loop_drop [of cache "[]" 0] by (simp add: DEDUP_MAX_def)

lemma dedup_insert_bounded:
  assumes "distinct cache" "length cache \<le> DEDUP_MAX"
  shows "\<exists>cache' b. dedup_insert cache key = Some (cache', b) \<and> length cache' \<le> DEDUP_MAX \<and> distinct cache'"
  using assms by (auto simp add: dedup_insert_def evict_loop_whole DEDUP_MAX_def dest: in_set_dropD)

text \<open>
  C9. When a new key arrives while the cache holds \<open>DEDUP_MAX = 5000\<close> keys, the 502
  oldest keys in insertion order (about 10%) are evicted, then the key is inserted
  last; the cache then holds 4499 keys, which is at most 5000.
\<close>

theorem dedup_insert_at_capacity:
  assumes "distinct cache" "length cache = DEDUP_MAX" "key \<notin> set cache"
  shows "dedup_insert cache key = Some (drop 502 cache @ [key], True) \<and>
         length (drop 502 cache @ [key]) = 4499 \<and>
         length (drop 502 cache @ [key]) \<le> DEDUP_MAX"
  using assms by (simp add: dedup_insert_def evict_loop_whole) (simp add: DEDUP_MAX_def)

theorem dedup_insert_at_capacity_example:
  "distinct (map (\<lambda>n. (''dev1'', replicate n CHR ''0'')) [0..<5000]) \<and> length (map (\<lambda>n. (''dev1'', replicate n CHR ''0'')) [0..<5000]) = DEDUP_MAX \<and>
   (''dev1'', ''new'') \<notin> set (map (\<lambda>n. (''dev1'', replicate n CHR ''0'')) [0..<5000]) \<and>
   dedup_insert (map (\<lambda>n. (''dev1'', replicate n CHR ''0'')) [0..<5000]) (''dev1'', ''new'') =
     Some (drop 502 (map (\<lambda>n. (''dev1'', replicate n CHR ''0'')) [0..<5000]) @ [(''dev1'', ''new'')], True) \<and>
   length (drop 502 (map (\<lambda>n. (''dev1'', replicate n CHR ''0'')) [0..<5000]) @ [(''dev1'', ''new'')]) = 4499"
proof -
  let ?c = "(map (\<lambda>n. (''dev1'', replicate n CHR ''0'')) [0..<5000])"
  have 0: "distinct ?c"
    by (simp add: distinct_map inj_on_def)
  have 1: "length ?c = DEDUP_MAX"
    by (simp add: DEDUP_MAX_def)
  have 2: "(''dev1'', ''new'') \<notin> set ?c"
  proof
    assume "(''dev1'', ''new'') \<in> set ?c"
    then obtain n where "''new'' = replicate n CHR ''0''" by auto
    then have "CHR ''n'' \<in> set (replicate n CHR ''0'')" by (metis list.set_intros(1))
    then show False by simp
  qed
  show ?thesis
    using dedup_insert_at_capacity [OF 0 1 2] 0 1 2 by simp
qed

end
